theory Spec2Isabelle
  imports Main "HOL-Library.Sublist" "HOL-Library.Char_ord" "HOL-Library.List_Lexorder"
    "HOL-Library.Word"
begin

section \<open>Text primitives of the Python runtime\<close>

text \<open>
  A Python \<open>str\<close> is a sequence of code points. The model writes it as a \<^typ>\<open>string\<close>,
  one \<^typ>\<open>char\<close> per code point, and so covers the texts whose code points are below 256:
  every text the \<open>latin-1\<close> rung of the decoding ladder produces, and every ASCII text.
  The character classes below are the runtime's tables cut down to that range.
\<close>

definition newline :: char where
  "newline = CHR 0x0A"

definition py_isspace :: "char \<Rightarrow> bool" where
  \<comment> \<open>\<open>str.isspace\<close> on one character, which is also the class \<open>\s\<close> of \<open>re\<close> on a \<open>str\<close> pattern\<close>
  "py_isspace c \<longleftrightarrow> c \<in> set [CHR 0x09, CHR 0x0A, CHR 0x0B, CHR 0x0C, CHR 0x0D,
       CHR 0x1C, CHR 0x1D, CHR 0x1E, CHR 0x1F, CHR 0x20, CHR 0x85, CHR 0xA0]"

definition py_isdigit :: "char \<Rightarrow> bool" where
  \<comment> \<open>\<open>str.isdigit\<close> on one character: the decimal digits and the superscripts 2, 3 and 1\<close>
  "py_isdigit c \<longleftrightarrow> c \<in> set (''0123456789'' @ [CHR 0xB2, CHR 0xB3, CHR 0xB9])"

definition strip_with :: "(char \<Rightarrow> bool) \<Rightarrow> string \<Rightarrow> string" where
  "strip_with p s = rev (dropWhile p (rev (dropWhile p s)))"

definition py_strip :: "string \<Rightarrow> string" where
  \<comment> \<open>\<open>s.strip()\<close>\<close>
  "py_strip s = strip_with py_isspace s"

definition strip_chars :: "string \<Rightarrow> string \<Rightarrow> string" where
  \<comment> \<open>\<open>s.strip(chars)\<close>\<close>
  "strip_chars chars s = strip_with (\<lambda>c. c \<in> set chars) s"

definition re_sub_class :: "string \<Rightarrow> string \<Rightarrow> string \<Rightarrow> string" where
  \<comment> \<open>\<open>re.sub('[' + cls + ']', repl, s)\<close>: every character of the class is replaced\<close>
  "re_sub_class cls repl s = concat (map (\<lambda>c. if c \<in> set cls then repl else [c]) s)"

section \<open>Regular expressions of the field extractor\<close>

text \<open>
  \<open>re.search\<close> tries the pattern at every start position from the left and returns the first
  match. A pattern is modelled by what it does at one start position: a function from the
  text that remains there to the captured group, \<open>None\<close> when it does not match.
\<close>

fun re_search :: "(string \<Rightarrow> 'a option) \<Rightarrow> string \<Rightarrow> 'a option" where
  "re_search m [] = m []"
| "re_search m (c # cs) = (case m (c # cs) of Some r \<Rightarrow> Some r | None \<Rightarrow> re_search m cs)"

text \<open>
  A pattern that starts with \<open>^\<close> under \<open>re.MULTILINE\<close> is tried only at the start of the text and
  after a newline; \<open>bol\<close> says whether the current position is one.
\<close>

fun re_search_bol :: "bool \<Rightarrow> (string \<Rightarrow> 'a option) \<Rightarrow> string \<Rightarrow> 'a option" where
  "re_search_bol bol m [] = (if bol then m [] else None)"
| "re_search_bol bol m (c # cs) =
     (case (if bol then m (c # cs) else None) of
        Some r \<Rightarrow> Some r
      | None \<Rightarrow> re_search_bol (c = newline) m cs)"

text \<open>
  A greedy repetition of a character class followed by the rest \<open>k\<close> of the pattern: the longest
  run is tried first, then the engine backtracks one character at a time down to \<open>lo\<close>
  characters (\<open>lo = 0\<close> for \<open>*\<close>, \<open>lo = 1\<close> for \<open>+\<close>). The result is the number of characters
  the repetition took and what the rest captured.
\<close>

fun greedy_try :: "nat \<Rightarrow> nat \<Rightarrow> (string \<Rightarrow> 'a option) \<Rightarrow> string \<Rightarrow> (nat \<times> 'a) option" where
  "greedy_try lo 0 k s = (if 0 < lo then None else map_option (Pair 0) (k s))"
| "greedy_try lo (Suc n) k s =
     (if Suc n < lo then None
      else case k (drop (Suc n) s) of
             Some r \<Rightarrow> Some (Suc n, r)
           | None \<Rightarrow> greedy_try lo n k s)"

definition greedy_class :: "(char \<Rightarrow> bool) \<Rightarrow> nat \<Rightarrow> (string \<Rightarrow> 'a option) \<Rightarrow> string \<Rightarrow> (nat \<times> 'a) option" where
  "greedy_class p lo k s = greedy_try lo (length (takeWhile p s)) k s"

text \<open>
  \<open>(.+?)$\<close> under \<open>re.MULTILINE\<close>: at least one character other than a newline, then as few more
  as possible up to a position followed by a newline or the end of the text.
\<close>

fun lazy_line :: "string \<Rightarrow> string option" where
  "lazy_line [] = None"
| "lazy_line (c # cs) = (if c = newline then None else Some (c # takeWhile (\<lambda>d. d \<noteq> newline) cs))"

text \<open>
  \<open>Label:\s*(.+?)$\<close>, the pattern of every single-line field, and \<open>^\s*Name:\s*(.+?)$\<close>, the
  pattern of the name, which is the same behind \<open>^\s*\<close>.
\<close>

definition field_match :: "string \<Rightarrow> string \<Rightarrow> string option" where
  "field_match label s =
     (if prefix (label @ '':'') s
      then map_option snd (greedy_class py_isspace 0 lazy_line (drop (length label + 1) s))
      else None)"

definition search_field :: "string \<Rightarrow> string \<Rightarrow> string option" where
  "search_field label text = re_search (field_match label) text"

definition anchored_match :: "string \<Rightarrow> string \<Rightarrow> string option" where
  "anchored_match label s = map_option snd (greedy_class py_isspace 0 (field_match label) s)"

definition search_name :: "string \<Rightarrow> string option" where
  "search_name text = re_search_bol True (anchored_match ''Name'') text"

text \<open>
  \<open>GAME INFO(.*?)(?:GAME HISTORY|$)\<close> under \<open>re.DOTALL\<close>: the group takes as few characters as
  possible up to a position where the end marker starts or \<open>$\<close> matches. Without
  \<open>re.MULTILINE\<close>, \<open>$\<close> matches at the end of the text and before a newline that ends the text.
\<close>

fun lazy_until :: "string \<Rightarrow> string \<Rightarrow> string" where
  "lazy_until stop [] = []"
| "lazy_until stop (c # cs) =
     (if prefix stop (c # cs) \<or> c # cs = [newline] then [] else c # lazy_until stop cs)"

definition section_match :: "string \<Rightarrow> string option" where
  "section_match s =
     (if prefix ''GAME INFO'' s then Some (lazy_until ''GAME HISTORY'' (drop 9 s)) else None)"

definition game_info_of :: "string \<Rightarrow> string" where
  "game_info_of content = (case re_search section_match content of Some g \<Rightarrow> g | None \<Rightarrow> content)"

text \<open>
  \<open>Genre:\s*([^\n]+(?:\n\s+[^\n]+)*)\<close>: the rest of the line, then every following line that the
  group \<open>\n\s+[^\n]+\<close> still matches. Nothing follows the repeated group, so each round is
  decided where it stands: \<open>continuation_line\<close> is the length of one round,
  \<open>continuation_lines\<close> the length of all rounds.
\<close>

definition line_run :: "string \<Rightarrow> string option" where
  "line_run s = (let l = takeWhile (\<lambda>c. c \<noteq> newline) s in if l = [] then None else Some l)"

definition continuation_line :: "string \<Rightarrow> nat option" where
  "continuation_line s =
     (case s of
        [] \<Rightarrow> None
      | c # r \<Rightarrow>
          if c \<noteq> newline then None
          else (case greedy_class py_isspace 1 line_run r of
                  None \<Rightarrow> None
                | Some (n, l) \<Rightarrow> Some (1 + n + length l)))"

lemma continuation_line_pos: "continuation_line s = Some k \<Longrightarrow> s \<noteq> [] \<and> 0 < k"
  by (auto simp: continuation_line_def split: list.splits if_splits option.splits)

function continuation_lines :: "string \<Rightarrow> nat" where
  "continuation_lines s =
     (case continuation_line s of
        None \<Rightarrow> 0
      | Some k \<Rightarrow> k + continuation_lines (drop k s))"
  by pat_completeness auto
termination
  by (relation "measure length") (auto dest: continuation_line_pos)

definition genre_group :: "string \<Rightarrow> string option" where
  "genre_group s =
     (case line_run s of
        None \<Rightarrow> None
      | Some l \<Rightarrow> Some (take (length l + continuation_lines (drop (length l) s)) s))"

definition genre_match :: "string \<Rightarrow> string option" where
  "genre_match s =
     (if prefix ''Genre:'' s
      then map_option snd (greedy_class py_isspace 0 genre_group (drop 6 s))
      else None)"

text \<open>\<open>re.sub(r'\s+', ' ', s)\<close>: every run of whitespace becomes one space.\<close>

function collapse_ws :: "string \<Rightarrow> string" where
  "collapse_ws [] = []"
| "collapse_ws (c # cs) =
     (if py_isspace c then CHR '' '' # collapse_ws (dropWhile py_isspace cs)
      else c # collapse_ws cs)"
  by pat_completeness auto
termination
  by (relation "measure length") (auto simp: length_dropWhile_le less_Suc_eq_le)

section \<open>The name sanitizer\<close>

text \<open>\<open>GamebaseOrganizer.sanitize_folder_name\<close>, statement by statement.\<close>

definition path_separators :: string where
  "path_separators = [CHR 0x5C, CHR ''/'']"

definition square_brackets :: string where
  "square_brackets = ''[]''"

definition invalid_chars :: string where
  "invalid_chars = ''<>:'' @ [CHR 0x22] @ ''|?*''"

definition sanitize_folder_name :: "string \<Rightarrow> string" where
  "sanitize_folder_name name =
     (let sanitized = re_sub_class path_separators ''-'' name;
          sanitized = re_sub_class square_brackets '''' sanitized;
          sanitized = re_sub_class invalid_chars '''' sanitized
      in strip_chars ''. '' sanitized)"

definition forbidden :: "char set" where
  "forbidden = set path_separators \<union> set square_brackets \<union> set invalid_chars"

section \<open>The genre and published splitters\<close>

text \<open>
  The string operations of \<open>parse_version_nfo\<close>, lines 136 to 165: \<open>sub in s\<close>,
  \<open>s.split(sep, 1)\<close> and \<open>s.split(None, 1)\<close>, then the two splitters as the source writes them.
  Unpacking \<open>split\<close>'s result into two names raises when it has one element; the
  \<open>except Exception\<close> of the parser turns that into no record, here \<open>None\<close>.
\<close>

fun contains :: "string \<Rightarrow> string \<Rightarrow> bool" where
  \<comment> \<open>\<open>sub in s\<close>\<close>
  "contains sub [] = (sub = [])"
| "contains sub (c # cs) = (prefix sub (c # cs) \<or> contains sub cs)"

fun split_once :: "string \<Rightarrow> string \<Rightarrow> (string \<times> string) option" where
  "split_once sep [] = None"
| "split_once sep (c # cs) =
     (if prefix sep (c # cs) then Some ([], drop (length sep) (c # cs))
      else map_option (\<lambda>(a, b). (c # a, b)) (split_once sep cs))"

definition py_split1 :: "string \<Rightarrow> string \<Rightarrow> string list" where
  "py_split1 sep s = (case split_once sep s of None \<Rightarrow> [s] | Some (a, b) \<Rightarrow> [a, b])"

definition split_genre :: "string \<Rightarrow> (string \<times> string) option" where
  "split_genre genre_text =
     (if contains '' - '' genre_text then
        (case py_split1 '' - '' genre_text of
           [primary_genre, secondary_genre] \<Rightarrow> Some (py_strip primary_genre, py_strip secondary_genre)
         | _ \<Rightarrow> None)
      else Some (genre_text, ''Other''))"

definition py_split_ws1 :: "string \<Rightarrow> string list" where
  "py_split_ws1 s =
     (let s1 = dropWhile py_isspace s in
      if s1 = [] then []
      else let tok = takeWhile (\<lambda>c. \<not> py_isspace c) s1;
               rest = dropWhile py_isspace (dropWhile (\<lambda>c. \<not> py_isspace c) s1)
           in if rest = [] then [tok] else [tok, rest])"

definition year_shaped :: "string \<Rightarrow> bool" where
  "year_shaped first_part \<longleftrightarrow>
     length first_part = 4 \<and> (\<forall>c \<in> set first_part. py_isdigit c \<or> c = CHR ''?'')"

definition split_published :: "string \<Rightarrow> string \<times> string" where
  "split_published pub_text =
     (case py_split_ws1 pub_text of
        [] \<Rightarrow> (''Unknown'', ''Unknown'')
      | first_part # more \<Rightarrow>
          if year_shaped first_part
          then (first_part, (case more of [] \<Rightarrow> ''Unknown'' | p # _ \<Rightarrow> p))
          else (''Unknown'', pub_text))"

section \<open>The field extractor\<close>

text \<open>
  \<open>GamebaseOrganizer.parse_version_nfo\<close>. The dictionary it returns has a fixed set of keys
  whose values are a \<open>str\<close> or \<open>None\<close>: a record of optional strings. \<open>parse_text\<close> is the
  body from line 114 on, a function of the decoded text; \<open>None\<close> is \<open>return None\<close>.
\<close>

record metadata =
  name :: "string option"
  primary_genre :: "string option"
  secondary_genre :: "string option"
  language :: "string option"
  published_year :: "string option"
  publisher :: "string option"
  players :: "string option"
  control :: "string option"
  pal_ntsc :: "string option"
  unique_id :: "string option"
  developer :: "string option"
  coding :: "string option"
  graphics :: "string option"
  music :: "string option"
  comment :: "string option"

definition stripped_or :: "string \<Rightarrow> string option \<Rightarrow> string" where
  "stripped_or dflt m = (case m of Some g \<Rightarrow> py_strip g | None \<Rightarrow> dflt)"

definition published_fields :: "string option \<Rightarrow> string \<times> string" where
  "published_fields pub_match =
     (case pub_match of
        None \<Rightarrow> (''Unknown'', ''Unknown'')
      | Some g \<Rightarrow> split_published (py_strip g))"

definition parse_text :: "string \<Rightarrow> metadata option" where
  "parse_text content =
     (let game_info = game_info_of content in
      case search_name game_info of
        None \<Rightarrow> None
      | Some name_captured \<Rightarrow>
          (case re_search genre_match content of
             None \<Rightarrow> None
           | Some genre_captured \<Rightarrow>
               (case split_genre (py_strip (collapse_ws genre_captured)) of
                  None \<Rightarrow> None
                | Some (primary, secondary) \<Rightarrow>
                    Some \<lparr> name = Some (py_strip name_captured),
                           primary_genre = Some primary,
                           secondary_genre = Some secondary,
                           language = Some (stripped_or ''(No Text)'' (search_field ''Language'' content)),
                           published_year = Some (fst (published_fields (search_field ''Published'' content))),
                           publisher = Some (snd (published_fields (search_field ''Published'' content))),
                           players = Some (stripped_or ''Unknown'' (search_field ''Players'' content)),
                           control = Some (stripped_or ''Unknown'' (search_field ''Control'' content)),
                           pal_ntsc = Some (stripped_or ''Unknown'' (search_field ''Pal/NTSC'' content)),
                           unique_id = map_option py_strip (search_field ''Unique-ID'' game_info),
                           developer = map_option py_strip (search_field ''Developer'' game_info),
                           coding = map_option py_strip (search_field ''Coding'' game_info),
                           graphics = map_option py_strip (search_field ''Graphics'' game_info),
                           music = map_option py_strip (search_field ''Music'' game_info),
                           comment = map_option py_strip (search_field ''Comment'' game_info) \<rparr>)))"

section \<open>The decoding ladder\<close>

text \<open>
  Lines 88 to 112 of \<open>parse_version_nfo\<close>. The file is a list of bytes. What \<open>open\<close> and \<open>read\<close>
  return under an encoding is \<open>Some\<close> of the text, or \<open>None\<close> when they raise
  \<open>UnicodeDecodeError\<close>. The codecs \<open>utf-8-sig\<close> and \<open>cp1252\<close> are parameters of the model;
  \<open>latin-1\<close> maps each byte to the code point of the same number. Text mode then turns
  \<open>\r\n\<close> and \<open>\r\<close> into \<open>\n\<close>. \<open>decoded_content\<close> is the variable \<open>content\<close> at line 111.
\<close>

type_synonym byte = "8 word"

record codec =
  decode_strict :: "byte list \<Rightarrow> string option"
  decode_replace :: "byte list \<Rightarrow> string option"

fun universal_newlines :: "string \<Rightarrow> string" where
  "universal_newlines [] = []"
| "universal_newlines [c] = (if c = CHR 0x0D then [newline] else [c])"
| "universal_newlines (c # d # ds) =
     (if c = CHR 0x0D
      then (if d = newline then newline # universal_newlines ds
            else newline # universal_newlines (d # ds))
      else c # universal_newlines (d # ds))"

definition latin_1 :: codec where
  "latin_1 = \<lparr> decode_strict = (\<lambda>bs. Some (universal_newlines (map (\<lambda>b. char_of (unat b)) bs))),
               decode_replace = (\<lambda>bs. Some (universal_newlines (map (\<lambda>b. char_of (unat b)) bs))) \<rparr>"

fun try_encodings :: "(byte list \<Rightarrow> string option) list \<Rightarrow> byte list \<Rightarrow> string option \<Rightarrow> string option" where
  "try_encodings [] bs content = content"
| "try_encodings (d # ds) bs content =
     (case d bs of Some t \<Rightarrow> Some t | None \<Rightarrow> try_encodings ds bs content)"

definition falsy :: "string option \<Rightarrow> bool" where
  "falsy content \<longleftrightarrow> content = None \<or> content = Some []"

definition decoded_content :: "codec \<Rightarrow> codec \<Rightarrow> byte list \<Rightarrow> string option" where
  "decoded_content utf_8_sig cp1252 bs =
     (let content = try_encodings
            [decode_strict utf_8_sig, decode_strict cp1252, decode_strict latin_1] bs None
      in if falsy content
         then try_encodings
            [decode_replace utf_8_sig, decode_replace cp1252, decode_replace latin_1] bs content
         else content)"

definition read_content :: "codec \<Rightarrow> codec \<Rightarrow> byte list \<Rightarrow> string option" where
  "read_content utf_8_sig cp1252 bs =
     (let content = decoded_content utf_8_sig cp1252 bs
      in if falsy content then None else content)"

definition parse_version_nfo :: "codec \<Rightarrow> codec \<Rightarrow> byte list \<Rightarrow> metadata option" where
  "parse_version_nfo utf_8_sig cp1252 bs =
     (case read_content utf_8_sig cp1252 bs of
        None \<Rightarrow> None
      | Some content \<Rightarrow> parse_text content)"


section \<open>Readings of the specification used in the claims\<close>

text \<open>
  The lines of a text, and the property that some line starts, after optional whitespace,
  with a label and a colon. \<open>claimed_field\<close> is the extraction the specification describes
  for every single-value field: the label anchored at a line start, searched in the bounded
  section only. It is compared with what \<open>parse_text\<close> does.
\<close>

fun lines_of :: "string \<Rightarrow> string list" where
  "lines_of [] = [[]]"
| "lines_of (c # cs) =
     (if c = newline then [] # lines_of cs
      else (case lines_of cs of [] \<Rightarrow> [[c]] | l # ls \<Rightarrow> (c # l) # ls))"

definition has_field_line :: "string \<Rightarrow> string \<Rightarrow> bool" where
  "has_field_line label text \<longleftrightarrow>
     (\<exists>l \<in> set (lines_of text). prefix (label @ '':'') (dropWhile py_isspace l))"


definition claimed_field :: "string \<Rightarrow> string \<Rightarrow> string option" where
  "claimed_field label content = re_search_bol True (anchored_match label) (game_info_of content)"

definition example_nfo :: string where
  "example_nfo =
     ''Language: French'' @ [newline] @
     ''GAME INFO'' @ [newline] @
     ''Name: Zorro'' @ [newline] @
     ''Genre: Action'' @ [newline] @
     ''Language: English'' @ [newline] @
     ''Original Developer: Foo'' @ [newline] @
     ''Developer: Bar'' @ [newline]"


section \<open>Facts about stripping and class substitution\<close>

lemma dropWhile_fixed: "xs = [] \<or> \<not> p (hd xs) \<Longrightarrow> dropWhile p xs = xs"
  by (cases xs) auto

lemma dropWhile_head: "dropWhile p xs = [] \<or> \<not> p (hd (dropWhile p xs))"
  using hd_dropWhile by blast

lemma strip_with_rev_fixed: "dropWhile p (rev (strip_with p s)) = rev (strip_with p s)"
  unfolding strip_with_def by (simp add: dropWhile_idem)

lemma strip_with_fixed: "dropWhile p (strip_with p s) = strip_with p s"
proof -
  define u where "u = dropWhile p s"
  define v where "v = dropWhile p (rev u)"
  have t: "strip_with p s = rev v"
    by (simp add: strip_with_def u_def v_def)
  have "rev u = takeWhile p (rev u) @ v"
    by (simp add: v_def)
  then have "u = rev v @ rev (takeWhile p (rev u))"
    by (metis rev_append rev_rev_ident)
  then have hd_eq: "rev v \<noteq> [] \<Longrightarrow> hd (rev v) = hd u"
    by (metis hd_append2)
  have "u = [] \<or> \<not> p (hd u)"
    unfolding u_def by (rule dropWhile_head)
  moreover have "u = [] \<Longrightarrow> rev v = []"
    by (simp add: v_def)
  ultimately have "rev v = [] \<or> \<not> p (hd (rev v))"
    using hd_eq by metis
  then show ?thesis
    unfolding t by (rule dropWhile_fixed)
qed

lemma strip_with_idem: "strip_with p (strip_with p s) = strip_with p s"
proof -
  have "strip_with p (strip_with p s) = rev (dropWhile p (rev (strip_with p s)))"
    by (simp add: strip_with_def [of p "strip_with p s"] strip_with_fixed)
  then show ?thesis
    by (simp add: strip_with_rev_fixed)
qed

lemma set_strip_with: "set (strip_with p s) \<subseteq> set s"
proof -
  have "set (dropWhile p (rev (dropWhile p s))) \<subseteq> set (rev (dropWhile p s))"
    by (rule set_dropWhileD [THEN subsetI])
  also have "\<dots> \<subseteq> set s"
    using set_dropWhileD by fastforce
  finally show ?thesis
    by (simp add: strip_with_def)
qed

lemma re_sub_class_absent: "set s \<inter> set cls = {} \<Longrightarrow> re_sub_class cls repl s = s"
  by (induction s) (auto simp: re_sub_class_def)

lemma re_sub_class_filter: "re_sub_class cls [] s = filter (\<lambda>c. c \<notin> set cls) s"
  by (induction s) (auto simp: re_sub_class_def)

lemma re_sub_class_map:
  "re_sub_class cls [r] s = map (\<lambda>c. if c \<in> set cls then r else c) s"
  by (induction s) (auto simp: re_sub_class_def)

lemma sanitize_folder_name_eq:
  "sanitize_folder_name x =
     strip_chars ''. '' (filter (\<lambda>c. c \<notin> set (square_brackets @ invalid_chars))
       (map (\<lambda>c. if c \<in> set path_separators then CHR ''-'' else c) x))"
  by (simp add: sanitize_folder_name_def re_sub_class_filter re_sub_class_map Let_def)

lemma sanitize_folder_name_clean: "set (sanitize_folder_name x) \<inter> forbidden = {}"
proof -
  have "set (sanitize_folder_name x) \<subseteq>
      set (filter (\<lambda>c. c \<notin> set (square_brackets @ invalid_chars))
        (map (\<lambda>c. if c \<in> set path_separators then CHR ''-'' else c) x))"
    unfolding sanitize_folder_name_eq strip_chars_def by (rule set_strip_with)
  moreover have "CHR ''-'' \<notin> forbidden"
    by (simp add: forbidden_def path_separators_def square_brackets_def invalid_chars_def)
  ultimately show ?thesis
    by (auto simp: forbidden_def split: if_splits)
qed

lemma sanitize_folder_name_fixed:
  assumes "set s \<inter> forbidden = {}"
  shows "sanitize_folder_name s = strip_chars ''. '' s"
proof -
  from assms have "set s \<inter> set path_separators = {}" "set s \<inter> set square_brackets = {}"
    "set s \<inter> set invalid_chars = {}"
    by (auto simp: forbidden_def)
  then show ?thesis
    by (simp add: sanitize_folder_name_def re_sub_class_absent)
qed

section \<open>Facts about the splitters\<close>

lemma split_once_first:
  assumes "sep \<noteq> []" "\<not> contains sep (a @ butlast sep)"
  shows "split_once sep (a @ sep @ b) = Some (a, b)"
  using assms
proof (induction a)
  case Nil
  then show ?case by (cases sep) auto
next
  case (Cons x a)
  have "\<not> prefix sep (x # a @ sep @ b)"
  proof
    assume p: "prefix sep (x # a @ sep @ b)"
    have "prefix (x # a @ butlast sep) (x # a @ sep @ b)"
      by (metis Cons.prems(1) append_butlast_last_id append.assoc prefix_Cons same_prefix_prefix prefixI)
    moreover have "length sep \<le> length (x # a @ butlast sep)"
      by simp
    ultimately have "prefix sep (x # a @ butlast sep)"
      using p prefix_length_prefix by blast
    with Cons.prems show False by simp
  qed
  moreover from Cons.prems have "\<not> contains sep (a @ butlast sep)" by simp
  ultimately show ?case
    using Cons.IH Cons.prems(1) by simp
qed

lemma contains_iff_split: "sep \<noteq> [] \<Longrightarrow> contains sep s \<longleftrightarrow> split_once sep s \<noteq> None"
  by (induction s) auto

lemma split_once_None_iff: "sep \<noteq> [] \<Longrightarrow> split_once sep s = None \<longleftrightarrow> \<not> contains sep s"
  by (induction s) auto

lemma py_split_ws1_two:
  assumes "tok \<noteq> []" "\<forall>c \<in> set tok. \<not> py_isspace c" "ws \<noteq> []" "\<forall>c \<in> set ws. py_isspace c"
    "rest \<noteq> []" "\<not> py_isspace (hd rest)"
  shows "py_split_ws1 (tok @ ws @ rest) = [tok, rest]"
proof -
  from assms(1,2) have lead: "dropWhile py_isspace (tok @ ws @ rest) = tok @ ws @ rest"
    by (cases tok) auto
  from assms(3,4) have t1: "takeWhile (\<lambda>c. \<not> py_isspace c) (ws @ rest) = []"
    by (cases ws) auto
  from assms(3,4) have d1: "dropWhile (\<lambda>c. \<not> py_isspace c) (ws @ rest) = ws @ rest"
    by (cases ws) auto
  from assms(2) have t2: "takeWhile (\<lambda>c. \<not> py_isspace c) (tok @ ws @ rest) = tok"
    by (simp add: takeWhile_append2 t1)
  from assms(2) have d2: "dropWhile (\<lambda>c. \<not> py_isspace c) (tok @ ws @ rest) = ws @ rest"
    by (simp add: dropWhile_append2 d1)
  from assms(5,6) have d3: "dropWhile py_isspace rest = rest"
    by (cases rest) auto
  from assms(4) have d4: "dropWhile py_isspace (ws @ rest) = rest"
    by (simp add: dropWhile_append2 d3)
  from assms(1,5) show ?thesis
    by (simp add: py_split_ws1_def lead t2 d2 d4 Let_def)
qed

lemma py_split_ws1_one:
  assumes "tok \<noteq> []" "\<forall>c \<in> set tok. \<not> py_isspace c"
  shows "py_split_ws1 tok = [tok]"
proof -
  from assms have lead: "dropWhile py_isspace tok = tok"
    by (cases tok) auto
  from assms(2) have t2: "takeWhile (\<lambda>c. \<not> py_isspace c) tok = tok"
    by simp
  from assms(2) have d2: "dropWhile (\<lambda>c. \<not> py_isspace c) tok = []"
    by simp
  from assms(1) show ?thesis
    by (simp add: py_split_ws1_def lead t2 d2 Let_def)
qed

lemma py_split_ws1_length: "length (py_split_ws1 s) \<le> 2"
proof -
  have "length (if a then [] else if b then [t] else [t, r]) \<le> 2" for a b and t r :: string
    by simp
  then show ?thesis
    unfolding py_split_ws1_def Let_def by blast
qed

section \<open>Facts about searching and matching\<close>

lemma re_search_Some:
  "re_search m s = Some g \<Longrightarrow> \<exists>u v. s = u @ v \<and> m v = Some g"
proof (induction s)
  case Nil
  then show ?case by simp
next
  case (Cons c cs)
  show ?case
  proof (cases "m (c # cs)")
    case None
    with Cons.prems have "re_search m cs = Some g" by simp
    then obtain u v where "cs = u @ v" "m v = Some g"
      using Cons.IH by blast
    then have "c # cs = (c # u) @ v \<and> m v = Some g" by simp
    then show ?thesis by blast
  next
    case (Some r)
    with Cons.prems have "c # cs = [] @ (c # cs) \<and> m (c # cs) = Some g" by simp
    then show ?thesis by blast
  qed
qed

lemma re_search_bol_Some:
  "re_search_bol bol m s = Some g \<Longrightarrow>
     \<exists>u v. s = u @ v \<and> m v = Some g \<and> (if u = [] then bol else last u = newline)"
proof (induction s arbitrary: bol)
  case Nil
  then show ?case by (auto split: if_splits)
next
  case (Cons c cs)
  show ?case
  proof (cases "bol \<and> m (c # cs) \<noteq> None")
    case True
    with Cons.prems have "c # cs = [] @ (c # cs) \<and> m (c # cs) = Some g \<and> bol" by auto
    then show ?thesis by (metis (full_types))
  next
    case False
    with Cons.prems have "re_search_bol (c = newline) m cs = Some g"
      by (auto split: if_splits option.splits)
    then obtain u v where uv: "cs = u @ v" "m v = Some g"
      "if u = [] then c = newline else last u = newline"
      using Cons.IH by blast
    then have "c # cs = (c # u) @ v \<and> m v = Some g \<and> last (c # u) = newline"
      by (auto split: if_splits)
    then show ?thesis by (metis list.distinct(1))
  qed
qed

lemma greedy_try_Some:
  "greedy_try lo n k s = Some (j, r) \<Longrightarrow> j \<le> n \<and> lo \<le> j \<and> k (drop j s) = Some r"
proof (induction n)
  case 0
  then show ?case by (auto split: if_splits)
next
  case (Suc n)
  then show ?case by (auto split: if_splits option.splits)
qed

lemma take_takeWhile_prefix:
  assumes "j \<le> length (takeWhile p s)"
  shows "set (take j s) \<subseteq> set (takeWhile p s)"
proof -
  have "take j (takeWhile p s @ dropWhile p s) = take j (takeWhile p s)"
    using assms by (simp del: takeWhile_dropWhile_id)
  then have "take j s = take j (takeWhile p s)"
    by simp
  then show ?thesis
    by (simp add: set_take_subset)
qed

lemma greedy_class_Some:
  assumes "greedy_class p lo k s = Some (j, r)"
  shows "(\<forall>c \<in> set (take j s). p c) \<and> j \<le> length s \<and> lo \<le> j \<and> k (drop j s) = Some r"
proof -
  from assms have "greedy_try lo (length (takeWhile p s)) k s = Some (j, r)"
    by (simp add: greedy_class_def)
  then have j: "j \<le> length (takeWhile p s) \<and> lo \<le> j \<and> k (drop j s) = Some r"
    by (rule greedy_try_Some)
  then have "set (take j s) \<subseteq> set (takeWhile p s)"
    by (simp add: take_takeWhile_prefix)
  then have "\<forall>c \<in> set (take j s). p c"
    using set_takeWhileD by fastforce
  moreover have "j \<le> length s"
    using j length_takeWhile_le [of p s] by simp
  ultimately show ?thesis using j by simp
qed

lemma field_match_Some: "field_match label s = Some g \<Longrightarrow> prefix (label @ '':'') s"
  by (simp add: field_match_def split: if_splits)

lemma anchored_match_Some:
  assumes "anchored_match label v = Some g"
  shows "\<exists>w b. v = w @ (label @ '':'') @ b \<and> (\<forall>c \<in> set w. py_isspace c)"
proof -
  from assms obtain j where "greedy_class py_isspace 0 (field_match label) v = Some (j, g)"
    by (auto simp: anchored_match_def)
  then have g: "(\<forall>c \<in> set (take j v). py_isspace c) \<and> j \<le> length v \<and> 0 \<le> j
      \<and> field_match label (drop j v) = Some g"
    by (rule greedy_class_Some)
  then have "prefix (label @ '':'') (drop j v)"
    using field_match_Some [of label "drop j v" g] by blast
  then obtain b where d: "drop j v = (label @ '':'') @ b"
    by (auto simp: prefix_def)
  have "v = take j v @ drop j v"
    by simp
  then have "v = take j v @ (label @ '':'') @ b"
    by (simp only: d)
  with g show ?thesis by blast
qed

lemma lines_of_not_Nil: "lines_of s \<noteq> []"
  by (induction s) (auto split: list.splits)

lemma hd_lines_of: "hd (lines_of s) = takeWhile (\<lambda>c. c \<noteq> newline) s"
  by (induction s) (auto split: list.splits simp: lines_of_not_Nil)

lemma lines_of_append_newline: "lines_of (a @ newline # s) = lines_of a @ lines_of s"
  by (induction a) (auto split: list.splits simp: lines_of_not_Nil)

lemma line_start_in_lines:
  assumes "a = [] \<or> last a = newline"
  shows "takeWhile (\<lambda>c. c \<noteq> newline) s \<in> set (lines_of (a @ s))"
proof (cases "a = []")
  case True
  then show ?thesis
    using hd_lines_of [of s] lines_of_not_Nil [of s] by (metis append_Nil hd_in_set)
next
  case False
  with assms obtain a' where "a = a' @ [newline]"
    by (metis append_butlast_last_id)
  then have "lines_of (a @ s) = lines_of a' @ lines_of s"
    by (simp add: lines_of_append_newline)
  then show ?thesis
    using hd_lines_of [of s] lines_of_not_Nil [of s] by (metis UnCI hd_in_set set_append)
qed

lemma takeWhile_not_mem:
  "x \<notin> set xs \<Longrightarrow> takeWhile (\<lambda>c. c \<noteq> x) (xs @ ys) = xs @ takeWhile (\<lambda>c. c \<noteq> x) ys"
  by (induction xs) auto

lemma split_at_last_newline:
  "\<exists>w1 w2. w = w1 @ w2 \<and> (w1 = [] \<or> last w1 = newline) \<and> newline \<notin> set w2"
proof (induction w rule: rev_induct)
  case Nil
  then show ?case by simp
next
  case (snoc x w)
  show ?case
  proof (cases "x = newline")
    case True
    then have "w @ [x] = (w @ [x]) @ [] \<and> last (w @ [x]) = newline \<and> newline \<notin> set []"
      by simp
    then show ?thesis by blast
  next
    case False
    from snoc obtain w1 w2 where "w = w1 @ w2" "w1 = [] \<or> last w1 = newline" "newline \<notin> set w2"
      by blast
    with False have "w @ [x] = w1 @ (w2 @ [x]) \<and> (w1 = [] \<or> last w1 = newline) \<and> newline \<notin> set (w2 @ [x])"
      by simp
    then show ?thesis by blast
  qed
qed

lemma anchored_label_has_line:
  assumes "text = u @ w @ (label @ '':'') @ b" "u = [] \<or> last u = newline"
    "\<forall>c \<in> set w. py_isspace c" "newline \<notin> set label" "label \<noteq> []" "\<not> py_isspace (hd label)"
  shows "has_field_line label text"
proof -
  obtain w1 w2 where w: "w = w1 @ w2" "w1 = [] \<or> last w1 = newline" "newline \<notin> set w2"
    using split_at_last_newline by blast
  define a where "a = u @ w1"
  define s where "s = w2 @ (label @ '':'') @ b"
  have a: "a = [] \<or> last a = newline"
    using assms(2) w(2) by (cases "w1 = []") (simp_all add: a_def)
  have whole: "text = a @ s"
    by (simp add: assms(1) w(1) a_def s_def)
  have "takeWhile (\<lambda>c. c \<noteq> newline) s = w2 @ (label @ '':'') @ takeWhile (\<lambda>c. c \<noteq> newline) b"
  proof -
    have "newline \<notin> set (w2 @ label @ '':'')"
      using w(3) assms(4) by (simp add: newline_def)
    then show ?thesis
      unfolding s_def using takeWhile_not_mem [of newline "w2 @ label @ '':''" b] by simp
  qed
  moreover have "dropWhile py_isspace (w2 @ (label @ '':'') @ takeWhile (\<lambda>c. c \<noteq> newline) b)
      = (label @ '':'') @ takeWhile (\<lambda>c. c \<noteq> newline) b"
  proof -
    have "\<forall>c \<in> set w2. py_isspace c"
      using assms(3) w(1) by simp
    moreover have "dropWhile py_isspace ((label @ '':'') @ takeWhile (\<lambda>c. c \<noteq> newline) b)
        = (label @ '':'') @ takeWhile (\<lambda>c. c \<noteq> newline) b"
      using assms(5,6) by (cases label) auto
    ultimately show ?thesis
      by (simp add: dropWhile_append2)
  qed
  ultimately have "prefix (label @ '':'') (dropWhile py_isspace (takeWhile (\<lambda>c. c \<noteq> newline) s))"
    by simp
  moreover have "takeWhile (\<lambda>c. c \<noteq> newline) s \<in> set (lines_of text)"
    unfolding whole using a by (rule line_start_in_lines)
  ultimately show ?thesis
    unfolding has_field_line_def by blast
qed

lemma search_anchored_has_line:
  assumes "re_search_bol True (anchored_match label) text = Some g"
    "newline \<notin> set label" "label \<noteq> []" "\<not> py_isspace (hd label)"
  shows "has_field_line label text"
proof -
  from assms(1) have "\<exists>u v. text = u @ v \<and> anchored_match label v = Some g
      \<and> (if u = [] then True else last u = newline)"
    by (rule re_search_bol_Some)
  then obtain u v where uv: "text = u @ v" "anchored_match label v = Some g" "u = [] \<or> last u = newline"
    by (auto split: if_splits)
  from uv(2) have "\<exists>w b. v = w @ (label @ '':'') @ b \<and> (\<forall>c \<in> set w. py_isspace c)"
    by (rule anchored_match_Some)
  then obtain w b where wb: "v = w @ (label @ '':'') @ b" "\<forall>c \<in> set w. py_isspace c"
    by blast
  show ?thesis
  proof (rule anchored_label_has_line [where u = u and w = w and b = b])
    show "text = u @ w @ (label @ '':'') @ b"
      using uv(1) wb(1) by simp
    show "u = [] \<or> last u = newline"
      by (rule uv(3))
    show "\<forall>c \<in> set w. py_isspace c" by (rule wb(2))
  qed (rule assms)+
qed

lemma search_name_has_line:
  assumes "search_name text = Some g"
  shows "has_field_line ''Name'' text"
proof (rule search_anchored_has_line)
  show "re_search_bol True (anchored_match ''Name'') text = Some g"
    using assms by (simp add: search_name_def)
qed (simp_all add: newline_def py_isspace_def)

lemma contains_append: "prefix sub v \<Longrightarrow> contains sub (u @ v)"
proof (induction u)
  case Nil
  then show ?case by (cases v) auto
next
  case (Cons a u)
  then show ?case by simp
qed

lemma search_genre_contains:
  assumes "re_search genre_match content = Some g"
  shows "contains ''Genre:'' content"
proof -
  from assms have "\<exists>u v. content = u @ v \<and> genre_match v = Some g"
    by (rule re_search_Some)
  then obtain u v where uv: "content = u @ v" "genre_match v = Some g"
    by blast
  from uv(2) have "prefix ''Genre:'' v"
    by (simp add: genre_match_def split: if_splits)
  then have "contains ''Genre:'' (u @ v)"
    by (rule contains_append)
  then show ?thesis
    by (simp add: uv(1))
qed

lemma prefix_cut:
  assumes "prefix pat (x # xs @ pat @ rest)" "pat \<noteq> []"
  shows "prefix pat (x # xs @ butlast pat)"
proof -
  have "x # xs @ pat @ rest = (x # xs @ butlast pat) @ (last pat # rest)"
    using assms(2) by simp
  then have "prefix (x # xs @ butlast pat) (x # xs @ pat @ rest)"
    by (metis prefixI)
  moreover have "length pat \<le> length (x # xs @ butlast pat)"
    by simp
  ultimately show ?thesis
    using assms(1) prefix_length_prefix by blast
qed

lemma re_search_skip:
  assumes "\<And>v. m v \<noteq> None \<Longrightarrow> prefix pat v" "pat \<noteq> []"
    "\<not> contains pat (pre @ butlast pat)"
  shows "re_search m (pre @ pat @ rest) = re_search m (pat @ rest)"
  using assms(3)
proof (induction pre)
  case Nil
  then show ?case by simp
next
  case (Cons x pre)
  have "m (x # pre @ pat @ rest) = None"
  proof (rule ccontr)
    assume "m (x # pre @ pat @ rest) \<noteq> None"
    then have "prefix pat (x # pre @ pat @ rest)"
      by (rule assms(1))
    then have "prefix pat (x # pre @ butlast pat)"
      using assms(2) by (rule prefix_cut)
    with Cons.prems show False by simp
  qed
  moreover from Cons.prems have "\<not> contains pat (pre @ butlast pat)"
    by simp
  ultimately show ?case
    using Cons.IH by simp
qed

lemma re_search_here:
  assumes "m (c # cs) = Some g"
  shows "re_search m (c # cs) = Some g"
  using assms by simp

lemma re_search_absent:
  assumes "\<And>v. m v \<noteq> None \<Longrightarrow> prefix pat v" "\<not> contains pat s" "pat \<noteq> []"
  shows "re_search m s = None"
  using assms(2)
proof (induction s)
  case Nil
  have "m [] = None"
  proof (rule ccontr)
    assume "m [] \<noteq> None"
    then have "prefix pat []" by (rule assms(1))
    with assms(3) show False by simp
  qed
  then show ?case by simp
next
  case (Cons c cs)
  have "m (c # cs) = None"
  proof (rule ccontr)
    assume "m (c # cs) \<noteq> None"
    then have "prefix pat (c # cs)" by (rule assms(1))
    with Cons.prems show False by simp
  qed
  moreover from Cons.prems have "\<not> contains pat cs" by simp
  ultimately show ?case using Cons.IH by simp
qed

lemma greedy_try_first:
  assumes "k (drop n s) = Some r" "lo \<le> n"
  shows "greedy_try lo n k s = Some (n, r)"
  using assms by (cases n) auto

lemma value_tail:
  assumes "\<forall>c \<in> set ws. py_isspace c" "v \<noteq> []" "\<not> py_isspace (hd v)" "newline \<notin> set v"
    "rest = [] \<or> hd rest = newline"
  shows "greedy_class py_isspace 0 lazy_line (ws @ v @ rest) = Some (length ws, v)"
proof -
  from assms(2,3) have "takeWhile py_isspace (v @ rest) = []"
    by (cases v) auto
  with assms(1) have tw: "takeWhile py_isspace (ws @ v @ rest) = ws"
    by (simp add: takeWhile_append2)
  from assms(5) have "takeWhile (\<lambda>d. d \<noteq> newline) rest = []"
    by (cases rest) auto
  with assms(4) have "takeWhile (\<lambda>d. d \<noteq> newline) (v @ rest) = v"
    using takeWhile_not_mem [of newline v rest] by simp
  moreover obtain x xs where v: "v = x # xs"
    using assms(2) by (cases v) auto
  moreover have "x \<noteq> newline"
    using assms(4) v by auto
  ultimately have "lazy_line (v @ rest) = Some v"
    by simp
  then have "lazy_line (drop (length ws) (ws @ v @ rest)) = Some v"
    by simp
  then have "greedy_try 0 (length ws) lazy_line (ws @ v @ rest) = Some (length ws, v)"
    by (rule greedy_try_first) simp
  then show ?thesis
    by (simp add: greedy_class_def tw)
qed

lemma field_match_prefix: "field_match label v \<noteq> None \<Longrightarrow> prefix (label @ '':'') v"
  by (simp add: field_match_def split: if_splits)

lemma search_field_leftmost:
  assumes "\<not> contains (label @ '':'') (pre @ label)"
    "\<forall>c \<in> set ws. py_isspace c" "v \<noteq> []" "\<not> py_isspace (hd v)" "newline \<notin> set v"
    "rest = [] \<or> hd rest = newline"
  shows "search_field label (pre @ (label @ '':'') @ ws @ v @ rest) = Some v"
proof -
  have tail: "greedy_class py_isspace 0 lazy_line (ws @ v @ rest) = Some (length ws, v)"
    using assms(2-6) by (rule value_tail)
  have here: "field_match label ((label @ '':'') @ ws @ v @ rest) = Some v"
    by (simp add: field_match_def tail)
  have "re_search (field_match label) (pre @ (label @ '':'') @ ws @ v @ rest)
      = re_search (field_match label) ((label @ '':'') @ ws @ v @ rest)"
  proof (rule re_search_skip)
    show "field_match label u \<noteq> None \<Longrightarrow> prefix (label @ '':'') u" for u
      by (rule field_match_prefix)
    show "label @ '':'' \<noteq> []" by simp
    show "\<not> contains (label @ '':'') (pre @ butlast (label @ '':''))"
      using assms(1) by (simp add: butlast_append)
  qed
  also have "\<dots> = Some v"
  proof -
    obtain c cs where "(label @ '':'') @ ws @ v @ rest = c # cs"
      by (cases "(label @ '':'') @ ws @ v @ rest") auto
    with here show ?thesis
      by (metis re_search_here)
  qed
  finally show ?thesis
    by (simp add: search_field_def)
qed

lemma section_match_prefix: "section_match v \<noteq> None \<Longrightarrow> prefix ''GAME INFO'' v"
  by (simp add: section_match_def split: if_splits)

lemma game_info_of_absent:
  assumes "\<not> contains ''GAME INFO'' content"
  shows "game_info_of content = content"
proof -
  have "re_search section_match content = None"
    by (rule re_search_absent [where pat = "''GAME INFO''"])
      (use assms section_match_prefix in simp_all)
  then show ?thesis
    by (simp add: game_info_of_def)
qed

lemma game_info_of_first:
  assumes "\<not> contains ''GAME INFO'' (pre @ ''GAME INF'')"
  shows "game_info_of (pre @ ''GAME INFO'' @ rest) = lazy_until ''GAME HISTORY'' rest"
proof -
  have "re_search section_match (pre @ ''GAME INFO'' @ rest)
      = re_search section_match (''GAME INFO'' @ rest)"
    by (rule re_search_skip) (use assms section_match_prefix in simp_all)
  also have "\<dots> = Some (lazy_until ''GAME HISTORY'' rest)"
    by (simp add: section_match_def)
  finally show ?thesis
    by (simp add: game_info_of_def)
qed

lemma lazy_until_stop:
  assumes "\<not> contains stop (body @ butlast stop)" "1 < length stop"
  shows "lazy_until stop (body @ stop @ post) = body"
  using assms(1)
proof (induction body)
  case Nil
  obtain c cs where "stop = c # cs"
    using assms(2) by (cases stop) auto
  then show ?case by simp
next
  case (Cons x body)
  have "\<not> prefix stop (x # body @ stop @ post)"
  proof
    assume "prefix stop (x # body @ stop @ post)"
    then have "prefix stop (x # body @ butlast stop)"
      by (rule prefix_cut) (use assms(2) in auto)
    with Cons.prems show False by simp
  qed
  moreover have "x # body @ stop @ post \<noteq> [newline]"
    using assms(2) by (cases stop) auto
  moreover from Cons.prems have "\<not> contains stop (body @ butlast stop)"
    by simp
  ultimately show ?case
    using Cons.IH by simp
qed

lemma lazy_until_end:
  assumes "\<not> contains stop body" "stop \<noteq> []"
  shows "lazy_until stop body = (if body \<noteq> [] \<and> last body = newline then butlast body else body)"
  using assms(1)
proof (induction body)
  case Nil
  then show ?case by simp
next
  case (Cons x body)
  from Cons.prems have np: "\<not> prefix stop (x # body)" and "\<not> contains stop body"
    by simp_all
  then have IH: "lazy_until stop body = (if body \<noteq> [] \<and> last body = newline then butlast body else body)"
    using Cons.IH by simp
  show ?case
  proof (cases "body = []")
    case True
    with np show ?thesis by simp
  next
    case False
    with np IH show ?thesis by simp
  qed
qed

lemma parse_text_fields:
  assumes "parse_text content = Some r"
  shows "name r = map_option py_strip (search_name (game_info_of content))
     \<and> unique_id r = map_option py_strip (search_field ''Unique-ID'' (game_info_of content))
     \<and> developer r = map_option py_strip (search_field ''Developer'' (game_info_of content))
     \<and> coding r = map_option py_strip (search_field ''Coding'' (game_info_of content))
     \<and> graphics r = map_option py_strip (search_field ''Graphics'' (game_info_of content))
     \<and> music r = map_option py_strip (search_field ''Music'' (game_info_of content))
     \<and> comment r = map_option py_strip (search_field ''Comment'' (game_info_of content))
     \<and> Some (primary_genre r, secondary_genre r) =
         map_option (\<lambda>(p, s). (Some p, Some s))
           (Option.bind (re_search genre_match content) (\<lambda>g. split_genre (py_strip (collapse_ws g))))
     \<and> language r = Some (stripped_or ''(No Text)'' (search_field ''Language'' content))
     \<and> published_year r = Some (fst (published_fields (search_field ''Published'' content)))
     \<and> publisher r = Some (snd (published_fields (search_field ''Published'' content)))
     \<and> players r = Some (stripped_or ''Unknown'' (search_field ''Players'' content))
     \<and> control r = Some (stripped_or ''Unknown'' (search_field ''Control'' content))
     \<and> pal_ntsc r = Some (stripped_or ''Unknown'' (search_field ''Pal/NTSC'' content))"
proof -
  obtain n where n: "search_name (game_info_of content) = Some n"
    using assms by (cases "search_name (game_info_of content)") (simp_all add: parse_text_def Let_def)
  obtain g where g: "re_search genre_match content = Some g"
    using assms n by (cases "re_search genre_match content") (simp_all add: parse_text_def Let_def)
  obtain p s where ps: "split_genre (py_strip (collapse_ws g)) = Some (p, s)"
    using assms n g by (cases "split_genre (py_strip (collapse_ws g))") (auto simp: parse_text_def Let_def)
  from assms have "r = \<lparr> name = Some (py_strip n),
       primary_genre = Some p,
       secondary_genre = Some s,
       language = Some (stripped_or ''(No Text)'' (search_field ''Language'' content)),
       published_year = Some (fst (published_fields (search_field ''Published'' content))),
       publisher = Some (snd (published_fields (search_field ''Published'' content))),
       players = Some (stripped_or ''Unknown'' (search_field ''Players'' content)),
       control = Some (stripped_or ''Unknown'' (search_field ''Control'' content)),
       pal_ntsc = Some (stripped_or ''Unknown'' (search_field ''Pal/NTSC'' content)),
       unique_id = map_option py_strip (search_field ''Unique-ID'' (game_info_of content)),
       developer = map_option py_strip (search_field ''Developer'' (game_info_of content)),
       coding = map_option py_strip (search_field ''Coding'' (game_info_of content)),
       graphics = map_option py_strip (search_field ''Graphics'' (game_info_of content)),
       music = map_option py_strip (search_field ''Music'' (game_info_of content)),
       comment = map_option py_strip (search_field ''Comment'' (game_info_of content)) \<rparr>"
    by (simp add: parse_text_def Let_def n g ps)
  then show ?thesis
    by (simp add: n g ps)
qed

section \<open>Facts about the decoding ladder\<close>

lemma universal_newlines_Nil: "universal_newlines s = [] \<longleftrightarrow> s = []"
  by (induction s rule: universal_newlines.induct) auto

lemma latin_1_total: "decode_strict latin_1 bs \<noteq> None" "decode_replace latin_1 bs \<noteq> None"
  by (simp_all add: latin_1_def)

lemma try_encodings_latin_1:
  "\<exists>t. try_encodings [d1, d2, decode_strict latin_1] bs content = Some t"
  "\<exists>t. try_encodings [d1, d2, decode_replace latin_1] bs content = Some t"
  by (auto simp: latin_1_def split: option.splits)

lemma decoded_content_Some: "\<exists>t. decoded_content utf_8_sig cp1252 bs = Some t"
  unfolding decoded_content_def Let_def
  using try_encodings_latin_1 [of "decode_strict utf_8_sig" "decode_strict cp1252" bs None]
    try_encodings_latin_1 [of "decode_replace utf_8_sig" "decode_replace cp1252" bs]
  by (metis (full_types))


section \<open>Claims\<close>

text \<open>
  C1, as amended. The claim says that every single-value field is extracted from the
  bounded section and that its label is anchored at a line start. The code does so for the
  name only. On \<open>example_nfo\<close> the language comes from a line before the section and the
  developer from the middle of a line, where the claimed extraction gives the values of the
  lines that start with the label inside the section.
\<close>

theorem C1_counterexample:
  "map_option language (parse_text example_nfo) = Some (Some ''French'')
   \<and> map_option py_strip (claimed_field ''Language'' example_nfo) = Some ''English''
   \<and> map_option developer (parse_text example_nfo) = Some (Some ''Foo'')
   \<and> map_option py_strip (claimed_field ''Developer'' example_nfo) = Some ''Bar''"
  by code_simp


text \<open>
  What the code does: the name, Unique-ID, Developer, Coding, Graphics, Music and Comment are
  searched in the bounded section; Genre, Language, Published, Players, Control and Pal/NTSC
  in the whole text. The section is the whole text when \<open>GAME INFO\<close> does not occur;
  otherwise it starts after the first \<open>GAME INFO\<close> and ends before the next
  \<open>GAME HISTORY\<close>, or at the end of the text less one final newline. Only the name is
  anchored: every other label matches at its leftmost occurrence in the text searched,
  wherever in a line it stands, and the value is the rest of that line after optional
  whitespace.
\<close>

theorem C1_field_sources:
  "(parse_text content = Some r \<longrightarrow>
       name r = map_option py_strip (search_name (game_info_of content))
     \<and> unique_id r = map_option py_strip (search_field ''Unique-ID'' (game_info_of content))
     \<and> developer r = map_option py_strip (search_field ''Developer'' (game_info_of content))
     \<and> coding r = map_option py_strip (search_field ''Coding'' (game_info_of content))
     \<and> graphics r = map_option py_strip (search_field ''Graphics'' (game_info_of content))
     \<and> music r = map_option py_strip (search_field ''Music'' (game_info_of content))
     \<and> comment r = map_option py_strip (search_field ''Comment'' (game_info_of content))
     \<and> Some (primary_genre r, secondary_genre r) =
         map_option (\<lambda>(p, s). (Some p, Some s))
           (Option.bind (re_search genre_match content) (\<lambda>g. split_genre (py_strip (collapse_ws g))))
     \<and> language r = Some (stripped_or ''(No Text)'' (search_field ''Language'' content))
     \<and> published_year r = Some (fst (published_fields (search_field ''Published'' content)))
     \<and> publisher r = Some (snd (published_fields (search_field ''Published'' content)))
     \<and> players r = Some (stripped_or ''Unknown'' (search_field ''Players'' content))
     \<and> control r = Some (stripped_or ''Unknown'' (search_field ''Control'' content))
     \<and> pal_ntsc r = Some (stripped_or ''Unknown'' (search_field ''Pal/NTSC'' content)))
   \<and> (\<not> contains ''GAME INFO'' content \<longrightarrow> game_info_of content = content)
   \<and> (\<not> contains ''GAME INFO'' (pre @ ''GAME INF'')
        \<and> \<not> contains ''GAME HISTORY'' (body @ ''GAME HISTOR'')
      \<longrightarrow> game_info_of (pre @ ''GAME INFO'' @ body @ ''GAME HISTORY'' @ post) = body)
   \<and> (\<not> contains ''GAME INFO'' (pre @ ''GAME INF'') \<and> \<not> contains ''GAME HISTORY'' body
      \<longrightarrow> game_info_of (pre @ ''GAME INFO'' @ body) =
          (if body \<noteq> [] \<and> last body = newline then butlast body else body))
   \<and> (\<not> contains (label @ '':'') (before @ label) \<and> (\<forall>c \<in> set ws. py_isspace c)
        \<and> v \<noteq> [] \<and> \<not> py_isspace (hd v) \<and> newline \<notin> set v \<and> (rest = [] \<or> hd rest = newline)
      \<longrightarrow> search_field label (before @ (label @ '':'') @ ws @ v @ rest) = Some v)"
proof (intro conjI impI)
  assume "\<not> contains ''GAME INFO'' content"
  then show "game_info_of content = content"
    by (rule game_info_of_absent)
next
  assume h: "\<not> contains ''GAME INFO'' (pre @ ''GAME INF'')
        \<and> \<not> contains ''GAME HISTORY'' (body @ ''GAME HISTOR'')"
  then have "game_info_of (pre @ ''GAME INFO'' @ body @ ''GAME HISTORY'' @ post)
      = lazy_until ''GAME HISTORY'' (body @ ''GAME HISTORY'' @ post)"
    using game_info_of_first [of pre "body @ ''GAME HISTORY'' @ post"] by blast
  also have "\<dots> = body"
    by (rule lazy_until_stop) (use h in simp_all)
  finally show "game_info_of (pre @ ''GAME INFO'' @ body @ ''GAME HISTORY'' @ post) = body" .
next
  assume h: "\<not> contains ''GAME INFO'' (pre @ ''GAME INF'') \<and> \<not> contains ''GAME HISTORY'' body"
  then have "game_info_of (pre @ ''GAME INFO'' @ body) = lazy_until ''GAME HISTORY'' body"
    using game_info_of_first [of pre body] by blast
  also have "\<dots> = (if body \<noteq> [] \<and> last body = newline then butlast body else body)"
    by (rule lazy_until_end) (use h in simp_all)
  finally show "game_info_of (pre @ ''GAME INFO'' @ body) =
          (if body \<noteq> [] \<and> last body = newline then butlast body else body)" .
next
  assume "\<not> contains (label @ '':'') (before @ label) \<and> (\<forall>c \<in> set ws. py_isspace c)
        \<and> v \<noteq> [] \<and> \<not> py_isspace (hd v) \<and> newline \<notin> set v \<and> (rest = [] \<or> hd rest = newline)"
  then show "search_field label (before @ (label @ '':'') @ ws @ v @ rest) = Some v"
    by (intro search_field_leftmost) simp_all
qed (simp_all add: parse_text_fields)

theorem C1_field_sources_witness:
  "parse_text example_nfo = Some (the (parse_text example_nfo))
   \<and> language (the (parse_text example_nfo))
       = Some (stripped_or ''(No Text)'' (search_field ''Language'' example_nfo))
   \<and> developer (the (parse_text example_nfo))
       = map_option py_strip (search_field ''Developer'' (game_info_of example_nfo))
   \<and> \<not> contains ''GAME INFO'' ''Name: Zorro''
   \<and> game_info_of ''Name: Zorro'' = ''Name: Zorro''
   \<and> \<not> contains ''GAME INFO'' (''Language: French'' @ ''GAME INF'')
   \<and> \<not> contains ''GAME HISTORY'' (''Name: Zorro'' @ ''GAME HISTOR'')
   \<and> game_info_of (''Language: French'' @ ''GAME INFO'' @ ''Name: Zorro'' @ ''GAME HISTORY'' @ ''1985'')
       = ''Name: Zorro''
   \<and> \<not> contains (''Developer'' @ '':'') (''Original '' @ ''Developer'')
   \<and> search_field ''Developer'' (''Original '' @ (''Developer'' @ '':'') @ '' '' @ ''Foo'' @ [newline])
       = Some ''Foo''"
proof -
  have h1: "parse_text example_nfo = Some (the (parse_text example_nfo))"
    by code_simp
  have h2: "\<not> contains ''GAME INFO'' ''Name: Zorro''"
    by code_simp
  have h3: "\<not> contains ''GAME INFO'' (''Language: French'' @ ''GAME INF'')
      \<and> \<not> contains ''GAME HISTORY'' (''Name: Zorro'' @ ''GAME HISTOR'')"
    by code_simp
  have h4: "\<not> contains (''Developer'' @ '':'') (''Original '' @ ''Developer'')
      \<and> (\<forall>c \<in> set '' ''. py_isspace c) \<and> ''Foo'' \<noteq> [] \<and> \<not> py_isspace (hd ''Foo'')
      \<and> newline \<notin> set ''Foo'' \<and> ([newline] = [] \<or> hd [newline] = newline)"
    by code_simp
  from h1 h2 h3 h4
    C1_field_sources [of example_nfo "the (parse_text example_nfo)" "''Language: French''"
      "''Name: Zorro''" "''1985''" "''Developer''" "''Original ''" "'' ''" "''Foo''" "[newline]"]
    C1_field_sources [of "''Name: Zorro''"]
  show ?thesis by blast
qed

text \<open>
  C7. The name sanitizer is idempotent, \<open>sanitize (sanitize x) = sanitize x\<close> for every
  string \<open>x\<close>, and it does exactly this: both slash variants become a dash, square brackets
  and the characters \<open>< > : " | ? *\<close> are removed, and leading and trailing spaces and dots
  are trimmed. On \<open>Pirates! [Gold]\<close> only the brackets go; the exclamation mark stays.
\<close>

theorem C7_sanitize_idempotent:
  "sanitize_folder_name (sanitize_folder_name x) = sanitize_folder_name x
   \<and> sanitize_folder_name x =
       strip_chars ''. ''
         (filter (\<lambda>c. c \<notin> set (''[]<>:'' @ [CHR 0x22] @ ''|?*''))
           (map (\<lambda>c. if c = CHR 0x5C \<or> c = CHR ''/'' then CHR ''-'' else c) x))
   \<and> sanitize_folder_name ''Pirates! [Gold]'' = ''Pirates! Gold''"
proof (intro conjI)
  have "sanitize_folder_name (sanitize_folder_name x)
      = strip_chars ''. '' (sanitize_folder_name x)"
    by (rule sanitize_folder_name_fixed) (rule sanitize_folder_name_clean)
  also have "\<dots> = sanitize_folder_name x"
    unfolding sanitize_folder_name_eq strip_chars_def by (rule strip_with_idem)
  finally show "sanitize_folder_name (sanitize_folder_name x) = sanitize_folder_name x" .
next
  show "sanitize_folder_name x =
       strip_chars ''. ''
         (filter (\<lambda>c. c \<notin> set (''[]<>:'' @ [CHR 0x22] @ ''|?*''))
           (map (\<lambda>c. if c = CHR 0x5C \<or> c = CHR ''/'' then CHR ''-'' else c) x))"
    by (simp add: sanitize_folder_name_eq square_brackets_def invalid_chars_def
        path_separators_def)
next
  show "sanitize_folder_name ''Pirates! [Gold]'' = ''Pirates! Gold''"
    by (simp add: sanitize_folder_name_def re_sub_class_def strip_chars_def strip_with_def
        path_separators_def square_brackets_def invalid_chars_def)
qed

text \<open>
  C9. For every collapsed genre text: when it contains the separator \<open>" - "\<close> it is split at
  the first occurrence only, into primary and secondary genre, both trimmed, and whatever
  follows the first separator (later separators included) stays in the secondary genre;
  otherwise the whole text is the primary genre and the secondary genre is \<open>Other\<close>.
  The first occurrence is at the end of \<open>a\<close> when the separator does not start inside
  \<open>a\<close>, that is when it does not occur in \<open>a\<close> followed by the separator's first two
  characters.
\<close>

theorem C9_genre_split:
  "(\<not> contains '' - '' (a @ '' -'')
      \<longrightarrow> split_genre (a @ '' - '' @ b) = Some (py_strip a, py_strip b))
   \<and> (\<not> contains '' - '' genre_text \<longrightarrow> split_genre genre_text = Some (genre_text, ''Other''))
   \<and> split_genre ''Action - Platformer'' = Some (''Action'', ''Platformer'')
   \<and> split_genre ''Puzzle'' = Some (''Puzzle'', ''Other'')"
proof (intro conjI impI)
  assume first: "\<not> contains '' - '' (a @ '' -'')"
  have "split_once '' - '' (a @ '' - '' @ b) = Some (a, b)"
    by (rule split_once_first) (use first in simp_all)
  moreover from this have "contains '' - '' (a @ '' - '' @ b)"
    by (simp add: contains_iff_split)
  ultimately show "split_genre (a @ '' - '' @ b) = Some (py_strip a, py_strip b)"
    by (simp add: split_genre_def py_split1_def)
next
  assume "\<not> contains '' - '' genre_text"
  then show "split_genre genre_text = Some (genre_text, ''Other'')"
    by (simp add: split_genre_def)
next
  show "split_genre ''Action - Platformer'' = Some (''Action'', ''Platformer'')"
    by (simp add: split_genre_def py_split1_def py_strip_def strip_with_def py_isspace_def)
next
  show "split_genre ''Puzzle'' = Some (''Puzzle'', ''Other'')"
    by (simp add: split_genre_def)
qed

theorem C9_genre_split_witness:
  "\<not> contains '' - '' (''Action'' @ '' -'')
   \<and> split_genre (''Action'' @ '' - '' @ ''Platformer - Scrolling'') = Some (''Action'', ''Platformer - Scrolling'')
   \<and> \<not> contains '' - '' ''Puzzle'' \<and> split_genre ''Puzzle'' = Some (''Puzzle'', ''Other'')"
  using C9_genre_split [of "''Action''" "''Platformer - Scrolling''" "''Puzzle''"]
  by (simp add: py_strip_def strip_with_def py_isspace_def)

text \<open>
  C3. For every Published value: \<open>split(None, 1)\<close> gives at most two parts, the first token and
  what follows the first run of whitespace. When the first token has exactly four characters,
  each a digit or \<open>?\<close>, it is the year and the second part, when there is one, the publisher;
  otherwise the whole value is the publisher and the year keeps its default \<open>Unknown\<close>.
\<close>

theorem C3_published_split:
  "length (py_split_ws1 pub_text) \<le> 2
   \<and> (tok \<noteq> [] \<and> (\<forall>c \<in> set tok. \<not> py_isspace c) \<and> ws \<noteq> [] \<and> (\<forall>c \<in> set ws. py_isspace c)
        \<and> rest \<noteq> [] \<and> \<not> py_isspace (hd rest)
      \<longrightarrow> py_split_ws1 (tok @ ws @ rest) = [tok, rest]
          \<and> split_published (tok @ ws @ rest) =
              (if year_shaped tok then (tok, rest) else (''Unknown'', tok @ ws @ rest)))
   \<and> (tok \<noteq> [] \<and> (\<forall>c \<in> set tok. \<not> py_isspace c)
      \<longrightarrow> py_split_ws1 tok = [tok]
          \<and> split_published tok =
              (if year_shaped tok then (tok, ''Unknown'') else (''Unknown'', tok)))
   \<and> (year_shaped tok \<longleftrightarrow> length tok = 4 \<and> (\<forall>c \<in> set tok. py_isdigit c \<or> c = CHR ''?''))
   \<and> split_published ''1987 Activision'' = (''1987'', ''Activision'')
   \<and> split_published ''198? Ocean Software'' = (''198?'', ''Ocean Software'')
   \<and> split_published ''Unknown Publisher Co'' = (''Unknown'', ''Unknown Publisher Co'')"
proof (intro conjI impI)
  show "length (py_split_ws1 pub_text) \<le> 2"
    by (rule py_split_ws1_length)
next
  assume h: "tok \<noteq> [] \<and> (\<forall>c \<in> set tok. \<not> py_isspace c) \<and> ws \<noteq> [] \<and> (\<forall>c \<in> set ws. py_isspace c)
        \<and> rest \<noteq> [] \<and> \<not> py_isspace (hd rest)"
  then show two: "py_split_ws1 (tok @ ws @ rest) = [tok, rest]"
    by (simp add: py_split_ws1_two)
  then show "split_published (tok @ ws @ rest) =
              (if year_shaped tok then (tok, rest) else (''Unknown'', tok @ ws @ rest))"
    by (simp add: split_published_def)
next
  assume h: "tok \<noteq> [] \<and> (\<forall>c \<in> set tok. \<not> py_isspace c)"
  then show one: "py_split_ws1 tok = [tok]"
    by (simp add: py_split_ws1_one)
  then show "split_published tok =
              (if year_shaped tok then (tok, ''Unknown'') else (''Unknown'', tok))"
    by (simp add: split_published_def)
next
  show "year_shaped tok \<longleftrightarrow> length tok = 4 \<and> (\<forall>c \<in> set tok. py_isdigit c \<or> c = CHR ''?'')"
    by (simp add: year_shaped_def)
next
  show "split_published ''1987 Activision'' = (''1987'', ''Activision'')"
    by (simp add: split_published_def py_split_ws1_def py_isspace_def year_shaped_def py_isdigit_def)
next
  show "split_published ''198? Ocean Software'' = (''198?'', ''Ocean Software'')"
    by (simp add: split_published_def py_split_ws1_def py_isspace_def year_shaped_def py_isdigit_def)
next
  show "split_published ''Unknown Publisher Co'' = (''Unknown'', ''Unknown Publisher Co'')"
    by (simp add: split_published_def py_split_ws1_def py_isspace_def year_shaped_def py_isdigit_def)
qed

theorem C3_published_split_witness:
  "py_split_ws1 (''198?'' @ ''  '' @ ''Ocean Software'') = [''198?'', ''Ocean Software'']
   \<and> split_published (''198?'' @ ''  '' @ ''Ocean Software'') = (''198?'', ''Ocean Software'')
   \<and> py_split_ws1 ''198?'' = [''198?'']
   \<and> split_published ''198?'' = (''198?'', ''Unknown'')
   \<and> year_shaped ''198?''"
  using C3_published_split [of "''198? Ocean Software''" "''198?''" "''  ''" "''Ocean Software''"]
  by (simp add: py_isspace_def py_isdigit_def)

text \<open>
  C5. Every info text whose bounded section has no line that starts, after optional
  whitespace, with \<open>Name:\<close> gives no record at all, and so does every info text in which
  \<open>Genre:\<close> does not occur. The result is a whole record or \<open>None\<close>, never a partial record.
\<close>

theorem C5_missing_required:
  "(\<not> has_field_line ''Name'' (game_info_of content) \<longrightarrow> parse_text content = None)
   \<and> (\<not> contains ''Genre:'' content \<longrightarrow> parse_text content = None)"
proof (intro conjI impI)
  assume "\<not> has_field_line ''Name'' (game_info_of content)"
  then have "search_name (game_info_of content) = None"
    using search_name_has_line [of "game_info_of content"] by (cases "search_name (game_info_of content)") auto
  then show "parse_text content = None"
    by (simp add: parse_text_def)
next
  assume "\<not> contains ''Genre:'' content"
  then have "re_search genre_match content = None"
    using search_genre_contains [of content] by (cases "re_search genre_match content") auto
  then show "parse_text content = None"
    by (simp add: parse_text_def Let_def split: option.splits)
qed

theorem C5_missing_required_witness:
  "\<not> has_field_line ''Name''
       (game_info_of (''Name: Elsewhere'' @ [newline] @ ''GAME INFO'' @ [newline] @ ''Genre: Action''))
   \<and> parse_text (''Name: Elsewhere'' @ [newline] @ ''GAME INFO'' @ [newline] @ ''Genre: Action'') = None
   \<and> \<not> contains ''Genre:'' (''Name: Zorro'' @ [newline] @ ''Language: English'')
   \<and> parse_text (''Name: Zorro'' @ [newline] @ ''Language: English'') = None"
proof -
  have h1: "\<not> has_field_line ''Name''
       (game_info_of (''Name: Elsewhere'' @ [newline] @ ''GAME INFO'' @ [newline] @ ''Genre: Action''))"
    by code_simp
  have h2: "\<not> contains ''Genre:'' (''Name: Zorro'' @ [newline] @ ''Language: English'')"
    by code_simp
  from h1 h2
    C5_missing_required [of "''Name: Elsewhere'' @ [newline] @ ''GAME INFO'' @ [newline] @ ''Genre: Action''"]
    C5_missing_required [of "''Name: Zorro'' @ [newline] @ ''Language: English''"]
  show ?thesis by blast
qed

text \<open>
  C10. The last strict rung of the decoding ladder, \<open>latin-1\<close>, accepts every byte sequence,
  so \<open>content\<close> is never \<open>None\<close> at line 111, whatever the other two codecs do: extraction
  reports a decoding failure exactly when the decoded content is the empty string. Under
  \<open>latin-1\<close> that is the empty file only.
\<close>

theorem C10_decode_failure:
  "decode_strict latin_1 bs \<noteq> None
   \<and> (\<exists>t. decoded_content utf_8_sig cp1252 bs = Some t)
   \<and> (read_content utf_8_sig cp1252 bs = None \<longleftrightarrow> decoded_content utf_8_sig cp1252 bs = Some [])
   \<and> (decode_strict latin_1 bs = Some [] \<longleftrightarrow> bs = [])"
proof (intro conjI)
  show "decode_strict latin_1 bs \<noteq> None"
    by (rule latin_1_total)
  show some: "\<exists>t. decoded_content utf_8_sig cp1252 bs = Some t"
    by (rule decoded_content_Some)
  then obtain t where "decoded_content utf_8_sig cp1252 bs = Some t"
    by blast
  then show "read_content utf_8_sig cp1252 bs = None \<longleftrightarrow> decoded_content utf_8_sig cp1252 bs = Some []"
    by (simp add: read_content_def falsy_def)
  show "decode_strict latin_1 bs = Some [] \<longleftrightarrow> bs = []"
    by (simp add: latin_1_def universal_newlines_Nil)
qed

end
